theory Spec2Isabelle
  imports Complex_Main
begin

section \<open>QuotaManager (src/utils/SecurityUtils.ts, lines 417-542)\<close>

text \<open>
  The quota registry is a \<open>Map<string, {limit, used, dayKey}>\<close>. \<open>used\<close> is a count:
  it starts at 0 and changes only by \<open>used++\<close> and by the reset. \<open>limit\<close> is any finite
  number: the source tests an override only for being finite and positive and takes
  \<open>dailyLimit\<close> as it is, so a limit such as 2.5 is possible (a \<open>dailyLimit\<close> that is
  NaN or infinite is not covered). An instant is the number
  of milliseconds since the epoch, as \<open>Date\<close> holds it. The source's \<open>dayKey\<close> is the
  text \<open>YYYY-MM-DD\<close> cut from \<open>toISOString()\<close>; that text and the number of whole UTC
  days since the epoch determine each other, and the model stores the day number.
  \<open>getNextResetTime\<close> is the instant of the next UTC midnight, which the source prints
  with \<open>toISOString()\<close>. Every method reads the clock once per call in the model (the
  source reads it again for \<open>resetAt\<close> within the same call).
\<close>

record quota =
  limit :: real
  used :: int
  dayKey :: int

type_synonym quotas = "string \<rightharpoonup> quota"

record QuotaConfig =
  dailyLimit :: real
  envPrefix :: "string option"

record QuotaStatus =
  st_platform :: string
  st_used :: int
  st_limit :: real
  st_remaining :: real
  st_resetAt :: int

datatype QuotaExhaustedError = QuotaExhaustedError string real int

definition msPerDay :: int where
  "msPerDay = 86400000"

definition getDayKey :: "int \<Rightarrow> int" where
  "getDayKey now = now div msPerDay"

definition getNextResetTime :: "int \<Rightarrow> int" where
  "getNextResetTime now = (now div msPerDay + 1) * msPerDay"

definition resetIfNeeded :: "int \<Rightarrow> quota \<Rightarrow> quota" where
  "resetIfNeeded now q =
     (let currentKey = getDayKey now
      in if currentKey \<noteq> dayKey q then q\<lparr>dayKey := currentKey, used := 0\<rparr> else q)"

text \<open>
  \<open>env\<close> gives the finite number that \<open>Number(process.env[v])\<close> evaluates to, and
  \<open>None\<close> where the variable is unset or its text is not a finite number. An empty
  \<open>envPrefix\<close> is falsy in the source and selects no variable.
\<close>

definition registerPlatform ::
  "(string \<rightharpoonup> real) \<Rightarrow> int \<Rightarrow> string \<Rightarrow> QuotaConfig \<Rightarrow> quotas \<Rightarrow> quotas" where
  "registerPlatform env now platform config qs =
     (let envVar = (case envPrefix config of
                      None \<Rightarrow> None
                    | Some pre \<Rightarrow> if pre = [] then None else Some (pre @ ''_DAILY_LIMIT''));
          limitFromEnv = (case envVar of None \<Rightarrow> None | Some v \<Rightarrow> env v);
          lim = (case limitFromEnv of
                   None \<Rightarrow> dailyLimit config
                 | Some n \<Rightarrow> if n > 0 then n else dailyLimit config)
      in qs(platform \<mapsto> \<lparr>limit = lim, used = 0, dayKey = getDayKey now\<rparr>))"

text \<open>
  \<open>checkQuota\<close> returns the thrown error, if any, with the registry as the call leaves it
  (the rollover reset is kept also when the call throws).
\<close>

definition checkQuota :: "int \<Rightarrow> string \<Rightarrow> quotas \<Rightarrow> QuotaExhaustedError option \<times> quotas" where
  "checkQuota now platform qs =
     (case qs platform of
        None \<Rightarrow> (None, qs)
      | Some q0 \<Rightarrow>
          (let q = resetIfNeeded now q0; qs' = qs(platform \<mapsto> q)
           in if limit q \<le> 0 then (None, qs')
              else if real_of_int (used q) \<ge> limit q
                then (Some (QuotaExhaustedError platform (limit q) (getNextResetTime now)), qs')
                else (None, qs')))"

definition incrementUsage :: "int \<Rightarrow> string \<Rightarrow> quotas \<Rightarrow> quotas" where
  "incrementUsage now platform qs =
     (case qs platform of
        None \<Rightarrow> qs
      | Some q0 \<Rightarrow>
          (let q = resetIfNeeded now q0
           in if limit q > 0 then qs(platform \<mapsto> q\<lparr>used := used q + 1\<rparr>)
              else qs(platform \<mapsto> q)))"

definition getStatus :: "int \<Rightarrow> string \<Rightarrow> quotas \<Rightarrow> QuotaStatus option \<times> quotas" where
  "getStatus now platform qs =
     (case qs platform of
        None \<Rightarrow> (None, qs)
      | Some q0 \<Rightarrow>
          (let q = resetIfNeeded now q0
           in (Some \<lparr>st_platform = platform, st_used = used q, st_limit = limit q,
                     st_remaining = max 0 (limit q - real_of_int (used q)),
                     st_resetAt = getNextResetTime now\<rparr>,
               qs(platform \<mapsto> q))))"

text \<open>
  The callers' protocol of the specification's control flow (check, then the request,
  then increment on success): an increment issued directly after a \<open>checkQuota\<close> on the
  same platform that returned normally. \<open>t\<close> is the instant of the check, \<open>t'\<close> the
  instant of the increment.
\<close>

definition checkedIncrement :: "int \<Rightarrow> int \<Rightarrow> string \<Rightarrow> quotas \<Rightarrow> quotas" where
  "checkedIncrement t t' platform qs =
     (case checkQuota t platform qs of
        (Some e, qs') \<Rightarrow> qs'
      | (None, qs') \<Rightarrow> incrementUsage t' platform qs')"

datatype quotaCall =
    Register "string \<rightharpoonup> real" int string QuotaConfig
  | Check int string
  | Status int string
  | CheckedIncrement int int string

fun quotaStep :: "quotas \<Rightarrow> quotaCall \<Rightarrow> quotas" where
  "quotaStep qs (Register env now p config) = registerPlatform env now p config qs"
| "quotaStep qs (Check now p) = snd (checkQuota now p qs)"
| "quotaStep qs (Status now p) = snd (getStatus now p qs)"
| "quotaStep qs (CheckedIncrement t t' p) = checkedIncrement t t' p qs"

definition quotaRun :: "quotaCall list \<Rightarrow> quotas" where
  "quotaRun calls = foldl quotaStep Map.empty calls"

text \<open>
  What guarded increments keep: \<open>used\<close> stays below \<open>limit + 1\<close>, which is \<open>used \<le> limit\<close>
  when the limit is a whole number.
\<close>

definition withinLimit :: "quotas \<Rightarrow> bool" where
  "withinLimit qs =
     (\<forall>p q. qs p = Some q \<longrightarrow> limit q > 0 \<longrightarrow> 0 \<le> used q \<and> real_of_int (used q) < limit q + 1)"


section \<open>ErrorHandler (src/utils/ErrorHandler.ts)\<close>










subsection \<open>retryWithBackoff\<close>






subsection \<open>The delay before a retry\<close>




section \<open>RequestCache (src/utils/RequestCache.ts)\<close>

subsection \<open>generateKey\<close>

text \<open>
  \<open>JSON.stringify\<close> on the values that reach \<open>generateKey\<close>: an object is the list
  of its own properties in enumeration order, which is what \<open>JSON.stringify\<close> walks
  (for keys that are not array indices this is the order in which they were written).
  Numbers are integers and strings are ASCII text; properties holding \<open>undefined\<close> or
  functions, which \<open>JSON.stringify\<close> skips, are left out of the list.
\<close>

datatype json =
    JNull
  | JBool bool
  | JNum int
  | JStr string
  | JArr "json list"
  | JObj "(string \<times> json) list"

definition hexDigit :: "nat \<Rightarrow> char" where
  "hexDigit n = (if n < 10 then char_of (48 + n) else char_of (87 + n))"

definition escapeChar :: "char \<Rightarrow> string" where
  "escapeChar c =
     (let n = (of_char c :: nat)
      in if n = 34 then [CHR 0x5C, CHR 0x22]
         else if n = 92 then [CHR 0x5C, CHR 0x5C]
         else if n = 8 then [CHR 0x5C, CHR ''b'']
         else if n = 12 then [CHR 0x5C, CHR ''f'']
         else if n = 10 then [CHR 0x5C, CHR ''n'']
         else if n = 13 then [CHR 0x5C, CHR ''r'']
         else if n = 9 then [CHR 0x5C, CHR ''t'']
         else if n < 32 then
           [CHR 0x5C, CHR ''u'', CHR ''0'', CHR ''0'', hexDigit (n div 16), hexDigit (n mod 16)]
         else [c])"

definition quoteJSONString :: "string \<Rightarrow> string" where
  "quoteJSONString s = CHR 0x22 # concat (map escapeChar s) @ [CHR 0x22]"

fun decimalDigits :: "nat \<Rightarrow> string" where
  "decimalDigits n =
     (if n < 10 then [char_of (48 + n)]
      else decimalDigits (n div 10) @ [char_of (48 + n mod 10)])"

definition numberToString :: "int \<Rightarrow> string" where
  "numberToString i =
     (if i < 0 then CHR ''-'' # decimalDigits (nat (- i)) else decimalDigits (nat i))"

fun join :: "string \<Rightarrow> string list \<Rightarrow> string" where
  "join sep [] = []"
| "join sep [x] = x"
| "join sep (x # y # ys) = x @ sep @ join sep (y # ys)"

fun stringify :: "json \<Rightarrow> string"
  and stringifyMembers :: "(string \<times> json) list \<Rightarrow> string list"
  and stringifyElements :: "json list \<Rightarrow> string list" where
  "stringify JNull = ''null''"
| "stringify (JBool b) = (if b then ''true'' else ''false'')"
| "stringify (JNum i) = numberToString i"
| "stringify (JStr s) = quoteJSONString s"
| "stringify (JArr vs) = ''['' @ join '','' (stringifyElements vs) @ '']''"
| "stringify (JObj ms) = ''{'' @ join '','' (stringifyMembers ms) @ ''}''"
| "stringifyMembers [] = []"
| "stringifyMembers ((k, v) # ms) = (quoteJSONString k @ '':'' @ stringify v) # stringifyMembers ms"
| "stringifyElements [] = []"
| "stringifyElements (v # vs) = stringify v # stringifyElements vs"

text \<open>
  \<open>toLowerCase\<close> and \<open>trim\<close> on ASCII text; the white space that \<open>trim\<close> removes is
  tab, line feed, vertical tab, form feed, carriage return and space.
\<close>

definition isWhiteSpace :: "char \<Rightarrow> bool" where
  "isWhiteSpace c = ((of_char c :: nat) \<in> {9, 10, 11, 12, 13, 32})"

definition toLowerChar :: "char \<Rightarrow> char" where
  "toLowerChar c =
     (let n = (of_char c :: nat) in if 65 \<le> n \<and> n \<le> 90 then char_of (n + 32) else c)"

definition toLowerCase :: "string \<Rightarrow> string" where
  "toLowerCase s = map toLowerChar s"

definition trim :: "string \<Rightarrow> string" where
  "trim s = rev (dropWhile isWhiteSpace (rev (dropWhile isWhiteSpace s)))"

text \<open>
  \<open>generateKey_data\<close> is the text \<open>data\<close> that the source hashes; \<open>options\<close> is
  \<open>None\<close> where the argument is omitted (\<open>options || {}\<close>). The digest
  \<open>createHash('sha256').update(data).digest('hex')\<close> belongs to the runtime's crypto
  module and is the parameter \<open>sha256hex\<close>.
\<close>

definition generateKey_data :: "string \<Rightarrow> string \<Rightarrow> (string \<times> json) list option \<Rightarrow> string" where
  "generateKey_data platform query options =
     stringify (JObj [(''platform'', JStr platform),
                      (''query'', JStr (trim (toLowerCase query))),
                      (''options'', JObj (case options of None \<Rightarrow> [] | Some fs \<Rightarrow> fs))])"

definition generateKey ::
  "(string \<Rightarrow> string) \<Rightarrow> string \<Rightarrow> string \<Rightarrow> (string \<times> json) list option \<Rightarrow> string" where
  "generateKey sha256hex platform query options =
     sha256hex (generateKey_data platform query options)"

subsection \<open>The store\<close>

text \<open>
  Modelled from the spec: the store behind \<open>RequestCache\<close> is the \<open>LRUCache\<close> class of
  the package \<open>lru-cache\<close>, which is not part of the source files. The specification
  (sections 3 and 4.3) gives its behaviour: an entry holds key, value, \<open>insertedAt\<close> and
  \<open>ttl\<close>, and \<open>insertedAt\<close> is written by \<open>set\<close> only; an entry is visible to \<open>get\<close> while
  its age is below \<open>ttl\<close>; an expired entry is treated as absent and purged when it is
  met; the cache tracks access recency, and \<open>set\<close> evicts the least recently accessed
  entry if the size exceeds \<open>max\<close> after the insertion. The entries are kept most
  recently accessed first.

  The source (RequestCache.ts, lines 27-32) constructs the store with
  \<open>updateAgeOnGet: true\<close> and \<open>updateAgeOnHas: false\<close>: a successful \<open>get\<close> restarts the
  age of the entry, \<open>has\<close> does not. So an entry carries, beside \<open>insertedAt\<close>, the
  instant \<open>ce_start\<close> from which its age is counted: \<open>set\<close> puts both at the current
  instant, a successful \<open>get\<close> moves \<open>ce_start\<close> only. The entry is visible iff
  \<open>now - ce_start < ttl\<close>, which is the specification's \<open>now - insertedAt < ttl\<close> for
  an entry that no \<open>get\<close> has refreshed.
\<close>

record 'v CacheEntry =
  ce_key :: string
  ce_value :: 'v
  ce_insertedAt :: int
  ce_start :: int
  ce_ttl :: int

record 'v LRUCache =
  lru_max :: nat
  lru_ttl :: int
  updateAgeOnGet :: bool
  updateAgeOnHas :: bool
  entries :: "'v CacheEntry list"


definition removeKey :: "string \<Rightarrow> 'v CacheEntry list \<Rightarrow> 'v CacheEntry list" where
  "removeKey k es = filter (\<lambda>e. ce_key e \<noteq> k) es"


definition lru_set :: "int \<Rightarrow> string \<Rightarrow> 'v \<Rightarrow> 'v LRUCache \<Rightarrow> 'v LRUCache" where
  "lru_set now k v c =
     (let es = \<lparr>ce_key = k, ce_value = v, ce_insertedAt = now, ce_start = now,
                ce_ttl = lru_ttl c\<rparr>
               # removeKey k (entries c)
      in c\<lparr>entries := (if length es > lru_max c then butlast es else es)\<rparr>)"




text \<open>
  The class \<open>RequestCache\<close> as the source has it, \<open>now\<close> being the clock's reading.
  Its methods \<open>get\<close>, \<open>set\<close>, \<open>has\<close>, \<open>delete\<close> and \<open>clear\<close> are \<open>cache_get\<close>,
  \<open>cache_set\<close>, \<open>cache_has\<close>, \<open>cache_delete\<close> and \<open>cache_clear\<close>; \<open>maxSize || 100\<close> and
  \<open>ttlMs || 3600000\<close> take the default for a missing option and for 0. The options
  are whole numbers of entries and of milliseconds.
\<close>

record CacheOptions =
  maxSize :: "nat option"
  ttlMs :: "nat option"

record 'v RequestCache =
  cache :: "'v LRUCache"
  hits :: nat
  misses :: nat

definition newRequestCache :: "CacheOptions \<Rightarrow> 'v RequestCache" where
  "newRequestCache options =
     (let maxSize' = (case maxSize options of None \<Rightarrow> 100 | Some m \<Rightarrow> if m = 0 then 100 else m);
          ttlMs' = (case ttlMs options of None \<Rightarrow> 3600000 | Some t \<Rightarrow> if t = 0 then 3600000 else int t)
      in \<lparr>cache = \<lparr>lru_max = maxSize', lru_ttl = ttlMs', updateAgeOnGet = True,
                   updateAgeOnHas = False, entries = []\<rparr>,
          hits = 0, misses = 0\<rparr>)"


definition cache_set :: "int \<Rightarrow> string \<Rightarrow> 'v \<Rightarrow> 'v RequestCache \<Rightarrow> 'v RequestCache" where
  "cache_set now k v rc = rc\<lparr>cache := lru_set now k v (cache rc)\<rparr>"










section \<open>RateLimiter\<close>
















section \<open>MirrorRegistry\<close>

text \<open>
  Modelled from the spec: the mirror handling of \<open>SciHubSearcher\<close> is covered only by
  tests/platforms/SciHubSearcher.test.ts; the searcher itself is not among the source
  files. The specification (sections 3 and 4.5) gives the record and the operations:
  \<open>selectBest\<close> returns the Healthy mirror with the lowest \<open>lastResponseTimeMs\<close>, falls
  back to an Unknown mirror if none is Healthy, and fails with \<open>NoMirrorAvailable\<close>
  otherwise; \<open>reportFailure\<close> increments \<open>consecutiveFailures\<close> and demotes the mirror
  once the threshold is reached; \<open>reportSuccess\<close> resets the count and promotes the
  mirror. The threshold is configuration.
\<close>

datatype MirrorStatus = Unknown | Healthy | Unhealthy

record MirrorRecord =
  url :: string
  mirrorStatus :: MirrorStatus
  lastResponseTimeMs :: nat
  lastCheckedAt :: int
  consecutiveFailures :: nat

datatype MirrorError = NoMirrorAvailable

fun fastest :: "MirrorRecord \<Rightarrow> MirrorRecord list \<Rightarrow> MirrorRecord" where
  "fastest m [] = m"
| "fastest m (x # xs) =
     fastest (if lastResponseTimeMs x < lastResponseTimeMs m then x else m) xs"

definition selectBest :: "MirrorRecord list \<Rightarrow> MirrorError + MirrorRecord" where
  "selectBest ms =
     (case filter (\<lambda>m. mirrorStatus m = Healthy) ms of
        h # hs \<Rightarrow> Inr (fastest h hs)
      | [] \<Rightarrow>
          (case filter (\<lambda>m. mirrorStatus m = Unknown) ms of
             u # us \<Rightarrow> Inr u
           | [] \<Rightarrow> Inl NoMirrorAvailable))"

definition reportFailure :: "nat \<Rightarrow> string \<Rightarrow> MirrorRecord list \<Rightarrow> MirrorRecord list" where
  "reportFailure threshold mirrorUrl ms =
     map (\<lambda>m. if url m = mirrorUrl
               then (let n = consecutiveFailures m + 1
                     in m\<lparr>consecutiveFailures := n,
                          mirrorStatus := (if n \<ge> threshold then Unhealthy else mirrorStatus m)\<rparr>)
               else m) ms"

definition reportSuccess :: "string \<Rightarrow> MirrorRecord list \<Rightarrow> MirrorRecord list" where
  "reportSuccess mirrorUrl ms =
     map (\<lambda>m. if url m = mirrorUrl then m\<lparr>consecutiveFailures := 0, mirrorStatus := Healthy\<rparr> else m) ms"

section \<open>Properties of the QuotaManager\<close>

lemma resetIfNeeded_limit: "limit (resetIfNeeded now q) = limit q"
  by (simp add: resetIfNeeded_def Let_def)

lemma resetIfNeeded_used:
  "used (resetIfNeeded now q) = (if dayKey q \<noteq> getDayKey now then 0 else used q)"
  by (auto simp add: resetIfNeeded_def Let_def)

lemma resetIfNeeded_dayKey: "dayKey (resetIfNeeded now q) = getDayKey now"
  by (simp add: resetIfNeeded_def Let_def)

lemma resetIfNeeded_eq:
  "resetIfNeeded now q
     = (if dayKey q \<noteq> getDayKey now then q\<lparr>dayKey := getDayKey now, used := 0\<rparr> else q)"
  by (auto simp add: resetIfNeeded_def Let_def)

lemma next_reset_is_next_midnight:
  "getDayKey now * 86400000 \<le> now \<and> now < (getDayKey now + 1) * 86400000
   \<and> getNextResetTime now = (getDayKey now + 1) * 86400000
   \<and> now < getNextResetTime now \<and> getNextResetTime now \<le> now + 86400000
   \<and> getNextResetTime now mod 86400000 = 0
   \<and> getDayKey (getNextResetTime now) = getDayKey now + 1"
proof -
  have d: "now = now div 86400000 * 86400000 + now mod 86400000" by simp
  have m: "0 \<le> now mod 86400000" "now mod 86400000 < 86400000" by simp_all
  have a: "now div 86400000 * 86400000 \<le> now" using d m by linarith
  have b: "now < (now div 86400000 + 1) * 86400000" using d m by (simp add: algebra_simps)
  have c: "(now div 86400000 + 1) * 86400000 \<le> now + 86400000"
    using d m by (simp add: algebra_simps)
  have e: "(now div 86400000 + 1) * 86400000 mod 86400000 = 0" by simp
  have f: "(now div 86400000 + 1) * 86400000 div 86400000 = now div 86400000 + 1" by simp
  from a b c e f show ?thesis
    by (simp add: getDayKey_def getNextResetTime_def msPerDay_def)
qed

text \<open>
  C2: for a registered platform with \<open>limit > 0\<close>, \<open>checkQuota\<close> throws
  \<open>QuotaExhaustedError\<close> carrying the platform name, the limit and the reset time if and
  only if \<open>used \<ge> limit\<close> after the day-rollover reset; otherwise it returns normally.
  The reset sets \<open>used\<close> to 0 and stores today's key when the stored \<open>dayKey\<close> differs
  from today's UTC day, and changes nothing otherwise. Today's key is the UTC day that
  contains the instant, and the reset time is the next UTC midnight: the multiple of
  86400000 ms that lies after the instant and at most one day later. After registering
  with \<open>dailyLimit = 3\<close> (at any time) and three increments on one day, the record holds
  \<open>used = 3\<close> under that day's key, \<open>checkQuota\<close> on that day throws and leaves the
  record as it is, and \<open>checkQuota\<close> on another day stores \<open>used = 0\<close> under the new key
  and does not throw.
\<close>

theorem checkQuota_throws_iff_exhausted:
  "(qs p = Some q \<and> limit q > 0 \<longrightarrow>
      checkQuota now p qs =
        (if real_of_int (used (resetIfNeeded now q)) \<ge> limit q
         then Some (QuotaExhaustedError p (limit q) (getNextResetTime now)) else None,
         qs(p \<mapsto> resetIfNeeded now q))
      \<and> resetIfNeeded now q
          = (if dayKey q \<noteq> getDayKey now then q\<lparr>dayKey := getDayKey now, used := 0\<rparr> else q))
   \<and> (getDayKey now * 86400000 \<le> now \<and> now < (getDayKey now + 1) * 86400000
      \<and> getNextResetTime now = (getDayKey now + 1) * 86400000
      \<and> now < getNextResetTime now \<and> getNextResetTime now \<le> now + 86400000
      \<and> getNextResetTime now mod 86400000 = 0
      \<and> getDayKey (getNextResetTime now) = getDayKey now + 1)
   \<and> (getDayKey t2 = getDayKey t1 \<and> getDayKey t3 = getDayKey t1 \<and> getDayKey t4 = getDayKey t1
      \<and> getDayKey t5 \<noteq> getDayKey t1 \<longrightarrow>
      (let qs3 = incrementUsage t3 r (incrementUsage t2 r (incrementUsage t1 r
                   (registerPlatform env t0 r \<lparr>dailyLimit = 3, envPrefix = None\<rparr> qs0)))
       in qs3 r = Some \<lparr>limit = 3, used = 3, dayKey = getDayKey t1\<rparr>
          \<and> checkQuota t4 r qs3 = (Some (QuotaExhaustedError r 3 (getNextResetTime t4)), qs3)
          \<and> checkQuota t5 r qs3
              = (None, qs3(r \<mapsto> \<lparr>limit = 3, used = 0, dayKey = getDayKey t5\<rparr>))))"
proof (intro conjI impI)
  assume h: "qs p = Some q \<and> limit q > 0"
  then show "checkQuota now p qs =
        (if real_of_int (used (resetIfNeeded now q)) \<ge> limit q
         then Some (QuotaExhaustedError p (limit q) (getNextResetTime now)) else None,
         qs(p \<mapsto> resetIfNeeded now q))"
    by (simp add: checkQuota_def Let_def resetIfNeeded_limit)
  show "resetIfNeeded now q
      = (if dayKey q \<noteq> getDayKey now then q\<lparr>dayKey := getDayKey now, used := 0\<rparr> else q)"
    by (rule resetIfNeeded_eq)
next
  show "getDayKey now * 86400000 \<le> now" "now < (getDayKey now + 1) * 86400000"
    "getNextResetTime now = (getDayKey now + 1) * 86400000"
    "now < getNextResetTime now" "getNextResetTime now \<le> now + 86400000"
    "getNextResetTime now mod 86400000 = 0"
    "getDayKey (getNextResetTime now) = getDayKey now + 1"
    using next_reset_is_next_midnight [of now] by blast+
next
  assume days: "getDayKey t2 = getDayKey t1 \<and> getDayKey t3 = getDayKey t1
      \<and> getDayKey t4 = getDayKey t1 \<and> getDayKey t5 \<noteq> getDayKey t1"
  let ?qs1 = "registerPlatform env t0 r \<lparr>dailyLimit = 3, envPrefix = None\<rparr> qs0"
  let ?qs3 = "incrementUsage t3 r (incrementUsage t2 r (incrementUsage t1 r ?qs1))"
  have q1: "incrementUsage t1 r ?qs1 r = Some \<lparr>limit = 3, used = 1, dayKey = getDayKey t1\<rparr>"
    by (simp add: registerPlatform_def incrementUsage_def resetIfNeeded_def Let_def)
  have q2: "incrementUsage t2 r (incrementUsage t1 r ?qs1) r
      = Some \<lparr>limit = 3, used = 2, dayKey = getDayKey t1\<rparr>"
    using days by (simp add: incrementUsage_def [of t2] q1 resetIfNeeded_def Let_def)
  have q3: "?qs3 r = Some \<lparr>limit = 3, used = 3, dayKey = getDayKey t1\<rparr>"
    using days by (simp add: incrementUsage_def [of t3] q2 resetIfNeeded_def Let_def)
  have c4: "checkQuota t4 r ?qs3 = (Some (QuotaExhaustedError r 3 (getNextResetTime t4)), ?qs3)"
    using days q3 by (simp add: checkQuota_def resetIfNeeded_def Let_def map_upd_triv)
  have c5: "checkQuota t5 r ?qs3
      = (None, ?qs3(r \<mapsto> \<lparr>limit = 3, used = 0, dayKey = getDayKey t5\<rparr>))"
    using days q3 by (simp add: checkQuota_def resetIfNeeded_def Let_def)
  from q3 c4 c5
  show "let qs3 = ?qs3
       in qs3 r = Some \<lparr>limit = 3, used = 3, dayKey = getDayKey t1\<rparr>
          \<and> checkQuota t4 r qs3 = (Some (QuotaExhaustedError r 3 (getNextResetTime t4)), qs3)
          \<and> checkQuota t5 r qs3
              = (None, qs3(r \<mapsto> \<lparr>limit = 3, used = 0, dayKey = getDayKey t5\<rparr>))"
    by (simp add: Let_def)
qed

theorem checkQuota_throws_iff_exhausted_witness:
  "checkQuota 1700000000000 ''arxiv'' [''arxiv'' \<mapsto> \<lparr>limit = 3, used = 3, dayKey = 19675\<rparr>] =
     (Some (QuotaExhaustedError ''arxiv'' 3 1700006400000),
      [''arxiv'' \<mapsto> \<lparr>limit = 3, used = 3, dayKey = 19675\<rparr>])
   \<and> checkQuota 1700006400000 ''arxiv'' [''arxiv'' \<mapsto> \<lparr>limit = 3, used = 3, dayKey = 19675\<rparr>] =
     (None, [''arxiv'' \<mapsto> \<lparr>limit = 3, used = 0, dayKey = 19676\<rparr>])
   \<and> getDayKey 1700000000000 = 19675 \<and> getNextResetTime 1700000000000 = 1700006400000
   \<and> checkQuota 1700000000004 ''p''
        (incrementUsage 1700000000003 ''p'' (incrementUsage 1700000000002 ''p''
          (incrementUsage 1700000000001 ''p''
            (registerPlatform Map.empty 1600000000000 ''p'' \<lparr>dailyLimit = 3, envPrefix = None\<rparr>
               Map.empty))))
      = (Some (QuotaExhaustedError ''p'' 3 1700006400000),
         [''p'' \<mapsto> \<lparr>limit = 3, used = 3, dayKey = 19675\<rparr>])
   \<and> checkQuota 1700006400000 ''p''
        (incrementUsage 1700000000003 ''p'' (incrementUsage 1700000000002 ''p''
          (incrementUsage 1700000000001 ''p''
            (registerPlatform Map.empty 1600000000000 ''p'' \<lparr>dailyLimit = 3, envPrefix = None\<rparr>
               Map.empty))))
      = (None, [''p'' \<mapsto> \<lparr>limit = 3, used = 0, dayKey = 19676\<rparr>])"
proof -
  let ?q = "\<lparr>limit = 3, used = 3, dayKey = 19675\<rparr>"
  let ?qs = "[''arxiv'' \<mapsto> ?q]"
  let ?qs3 = "incrementUsage 1700000000003 ''p'' (incrementUsage 1700000000002 ''p''
          (incrementUsage 1700000000001 ''p''
            (registerPlatform Map.empty 1600000000000 ''p'' \<lparr>dailyLimit = 3, envPrefix = None\<rparr>
               Map.empty)))"
  have days: "getDayKey 1700000000000 = 19675" "getDayKey 1700000000001 = 19675"
    "getDayKey 1700000000002 = 19675" "getDayKey 1700000000003 = 19675"
    "getDayKey 1700000000004 = 19675" "getDayKey 1700006400000 = 19676"
    by (simp_all add: getDayKey_def msPerDay_def)
  have a: "?qs ''arxiv'' = Some ?q \<and> limit ?q > 0" by simp
  have d: "getDayKey 1700000000002 = getDayKey 1700000000001
      \<and> getDayKey 1700000000003 = getDayKey 1700000000001
      \<and> getDayKey 1700000000004 = getDayKey 1700000000001
      \<and> getDayKey 1700006400000 \<noteq> getDayKey 1700000000001"
    by (simp add: days)
  note inst = checkQuota_throws_iff_exhausted
      [where qs = ?qs and p = "''arxiv''" and q = ?q and now = 1700000000000
         and ?t1.0 = 1700000000001 and ?t2.0 = 1700000000002 and ?t3.0 = 1700000000003
         and ?t4.0 = 1700000000004 and ?t5.0 = 1700006400000 and ?t0.0 = 1600000000000
         and r = "''p''" and env = Map.empty and ?qs0.0 = Map.empty]
  from inst [THEN conjunct2, THEN conjunct1]
  have reset: "getNextResetTime 1700000000000 = 1700006400000" by (simp add: days)
  from checkQuota_throws_iff_exhausted [where now = 1700000000004, THEN conjunct2, THEN conjunct1]
  have reset4: "getNextResetTime 1700000000004 = 1700006400000" by (simp add: days)
  from inst [THEN conjunct1] a
  have g1: "checkQuota 1700000000000 ''arxiv'' ?qs
      = (Some (QuotaExhaustedError ''arxiv'' 3 1700006400000), ?qs)"
    by (simp add: days reset map_upd_triv)
  from checkQuota_throws_iff_exhausted
         [where qs = ?qs and p = "''arxiv''" and q = ?q and now = 1700006400000, THEN conjunct1] a
  have g2: "checkQuota 1700006400000 ''arxiv'' ?qs
      = (None, [''arxiv'' \<mapsto> \<lparr>limit = 3, used = 0, dayKey = 19676\<rparr>])"
    by (simp add: days)
  from inst [THEN conjunct2, THEN conjunct2, THEN mp, OF d]
  have q3: "?qs3 ''p'' = Some \<lparr>limit = 3, used = 3, dayKey = 19675\<rparr>"
    and g3: "checkQuota 1700000000004 ''p'' ?qs3
        = (Some (QuotaExhaustedError ''p'' 3 1700006400000), ?qs3)"
    and g4: "checkQuota 1700006400000 ''p'' ?qs3
        = (None, ?qs3(''p'' \<mapsto> \<lparr>limit = 3, used = 0, dayKey = 19676\<rparr>))"
    by (simp_all add: Let_def days reset4)
  have e: "?qs3 = [''p'' \<mapsto> \<lparr>limit = 3, used = 3, dayKey = 19675\<rparr>]"
    by (simp add: registerPlatform_def incrementUsage_def resetIfNeeded_def Let_def days)
  from g1 g2 g3 g4 days(1) reset show ?thesis by (simp add: e)
qed

lemma withinLimit_upd:
  "withinLimit qs \<Longrightarrow>
   (limit q > 0 \<Longrightarrow> 0 \<le> used q \<and> real_of_int (used q) < limit q + 1) \<Longrightarrow>
   withinLimit (qs(p \<mapsto> q))"
  by (simp add: withinLimit_def)

lemma withinLimit_lookup:
  "withinLimit qs \<Longrightarrow> qs p = Some q \<Longrightarrow> limit q > 0 \<Longrightarrow>
   0 \<le> used q \<and> real_of_int (used q) < limit q + 1"
  by (simp add: withinLimit_def)

lemma withinLimit_register:
  "withinLimit qs \<Longrightarrow> withinLimit (registerPlatform env now p config qs)"
  unfolding registerPlatform_def Let_def by (rule withinLimit_upd) auto

lemma withinLimit_reset:
  assumes "withinLimit qs" "qs p = Some q"
  shows "withinLimit (qs(p \<mapsto> resetIfNeeded now q))"
proof (rule withinLimit_upd [OF assms(1)])
  assume "0 < limit (resetIfNeeded now q)"
  then have pos: "0 < limit q" by (simp add: resetIfNeeded_limit)
  from withinLimit_lookup [OF assms pos] pos
  show "0 \<le> used (resetIfNeeded now q)
      \<and> real_of_int (used (resetIfNeeded now q)) < limit (resetIfNeeded now q) + 1"
    by (simp add: resetIfNeeded_used resetIfNeeded_limit)
qed

lemma withinLimit_check: "withinLimit qs \<Longrightarrow> withinLimit (snd (checkQuota now p qs))"
  unfolding checkQuota_def Let_def
  by (auto split: option.splits intro: withinLimit_reset)

lemma withinLimit_status: "withinLimit qs \<Longrightarrow> withinLimit (snd (getStatus now p qs))"
  unfolding getStatus_def Let_def
  by (auto split: option.splits intro: withinLimit_reset)

lemma withinLimit_checkedIncrement:
  assumes w: "withinLimit qs"
  shows "withinLimit (checkedIncrement t t' p qs)"
proof (cases "qs p")
  case None
  then show ?thesis using w
    by (simp add: checkedIncrement_def checkQuota_def incrementUsage_def)
next
  case (Some q0)
  let ?q = "resetIfNeeded t q0"
  let ?qs' = "qs(p \<mapsto> ?q)"
  have w': "withinLimit ?qs'" using w Some by (rule withinLimit_reset)
  show ?thesis
  proof (cases "limit ?q \<le> 0 \<or> \<not> real_of_int (used ?q) \<ge> limit ?q")
    case False
    then have "checkQuota t p qs
        = (Some (QuotaExhaustedError p (limit ?q) (getNextResetTime t)), ?qs')"
      using Some by (auto simp add: checkQuota_def Let_def)
    then show ?thesis using w' by (simp add: checkedIncrement_def)
  next
    case True
    then have ck: "checkQuota t p qs = (None, ?qs')"
      using Some by (auto simp add: checkQuota_def Let_def)
    let ?q' = "resetIfNeeded t' ?q"
    have res: "checkedIncrement t t' p qs
        = (if limit ?q' > 0 then ?qs'(p \<mapsto> ?q'\<lparr>used := used ?q' + 1\<rparr>) else ?qs'(p \<mapsto> ?q'))"
      by (simp add: checkedIncrement_def ck incrementUsage_def Let_def)
    show ?thesis
    proof (cases "limit ?q' > 0")
      case False
      then have "withinLimit (?qs'(p \<mapsto> ?q'))" by (intro withinLimit_upd [OF w']) simp
      then show ?thesis unfolding res using False by simp
    next
      case pos: True
      then have lp: "0 < limit q0" by (simp add: resetIfNeeded_limit)
      with True have lt: "real_of_int (used ?q) < limit q0"
        by (simp add: resetIfNeeded_limit)
      have nn: "0 \<le> used ?q"
        using withinLimit_lookup [OF w', of p ?q] lp by (simp add: resetIfNeeded_limit)
      have "0 \<le> used ?q' + 1 \<and> real_of_int (used ?q' + 1) < limit q0 + 1"
        using lt nn lp by (simp add: resetIfNeeded_used [of t'])
      then have "withinLimit (?qs'(p \<mapsto> ?q'\<lparr>used := used ?q' + 1\<rparr>))"
        by (intro withinLimit_upd [OF w']) (simp add: resetIfNeeded_limit)
      then show ?thesis unfolding res using pos by simp
    qed
  qed
qed

lemma withinLimit_step: "withinLimit qs \<Longrightarrow> withinLimit (quotaStep qs c)"
  by (cases c)
    (simp_all add: withinLimit_register withinLimit_check withinLimit_status
      withinLimit_checkedIncrement)

lemma withinLimit_foldl: "withinLimit qs \<Longrightarrow> withinLimit (foldl quotaStep qs calls)"
  by (induction calls arbitrary: qs) (simp_all add: withinLimit_step)

text \<open>
  C9, as the code has it: \<open>incrementUsage\<close> performs no check. In every state reached
  by registrations, \<open>checkQuota\<close>, \<open>getStatus\<close> and increments that directly follow a
  \<open>checkQuota\<close> on the same platform that returned normally, a record with \<open>limit > 0\<close>
  has \<open>0 \<le> used < limit + 1\<close>; that is \<open>used \<le> limit\<close> when the limit is a whole number.
\<close>

theorem used_within_limit_guarded:
  "quotaRun calls p = Some q \<and> limit q > 0 \<longrightarrow>
     0 \<le> used q \<and> real_of_int (used q) < limit q + 1
     \<and> (limit q \<in> \<int> \<longrightarrow> real_of_int (used q) \<le> limit q)"
proof
  assume a: "quotaRun calls p = Some q \<and> limit q > 0"
  have "withinLimit (Map.empty :: quotas)" by (simp add: withinLimit_def)
  then have "withinLimit (quotaRun calls)" unfolding quotaRun_def by (rule withinLimit_foldl)
  with a have b: "0 \<le> used q" "real_of_int (used q) < limit q + 1"
    by (auto dest: withinLimit_lookup)
  have "real_of_int (used q) \<le> limit q" if "limit q \<in> \<int>"
  proof -
    from that obtain n where n: "limit q = of_int n" by (auto elim: Ints_cases)
    from b(2) have "real_of_int (used q) < real_of_int (n + 1)" by (simp add: n)
    then have "used q < n + 1" by (simp only: of_int_less_iff)
    then show ?thesis by (simp add: n)
  qed
  with b show "0 \<le> used q \<and> real_of_int (used q) < limit q + 1
     \<and> (limit q \<in> \<int> \<longrightarrow> real_of_int (used q) \<le> limit q)" by blast
qed

theorem used_within_limit_guarded_witness:
  "quotaRun [Register Map.empty 0 ''p'' \<lparr>dailyLimit = 1, envPrefix = None\<rparr>,
             CheckedIncrement 5 6 ''p'', CheckedIncrement 7 8 ''p'', Check 9 ''p''] ''p''
     = Some \<lparr>limit = 1, used = 1, dayKey = 0\<rparr>
   \<and> (0::real) < limit \<lparr>limit = 1, used = 1, dayKey = 0\<rparr>
   \<and> limit \<lparr>limit = 1, used = 1, dayKey = 0\<rparr> \<in> \<int>
   \<and> real_of_int (used \<lparr>limit = 1, used = 1, dayKey = 0\<rparr>)
       \<le> limit \<lparr>limit = 1, used = 1, dayKey = 0\<rparr>"
proof -
  have run: "quotaRun [Register Map.empty 0 ''p'' \<lparr>dailyLimit = 1, envPrefix = None\<rparr>,
             CheckedIncrement 5 6 ''p'', CheckedIncrement 7 8 ''p'', Check 9 ''p''] ''p''
     = Some \<lparr>limit = 1, used = 1, dayKey = 0\<rparr>"
    by (simp add: quotaRun_def registerPlatform_def checkedIncrement_def checkQuota_def
        incrementUsage_def resetIfNeeded_def getDayKey_def msPerDay_def Let_def)
  have pos: "(0::real) < limit \<lparr>limit = 1, used = 1, dayKey = 0\<rparr>" by simp
  have whole: "limit \<lparr>limit = 1, used = 1, dayKey = 0\<rparr> \<in> \<int>" by simp
  from used_within_limit_guarded [of _ "''p''" "\<lparr>limit = 1, used = 1, dayKey = 0\<rparr>"] run pos whole
  show ?thesis by blast
qed

text \<open>
  C9 as stated fails: with \<open>dailyLimit = 1\<close>, two calls of \<open>incrementUsage\<close> leave
  \<open>used = 2\<close>; and with \<open>dailyLimit = 2.5\<close>, three increments that each follow a
  \<open>checkQuota\<close> that returned normally leave \<open>used = 3\<close>.
\<close>

theorem used_exceeds_limit_counterexample:
  "incrementUsage 0 ''p'' (incrementUsage 0 ''p''
     (registerPlatform Map.empty 0 ''p'' \<lparr>dailyLimit = 1, envPrefix = None\<rparr> Map.empty)) ''p''
   = Some \<lparr>limit = 1, used = 2, dayKey = 0\<rparr>
   \<and> quotaRun [Register Map.empty 0 ''p'' \<lparr>dailyLimit = 5 / 2, envPrefix = None\<rparr>,
               CheckedIncrement 1 2 ''p'', CheckedIncrement 3 4 ''p'', CheckedIncrement 5 6 ''p'']
        ''p''
     = Some \<lparr>limit = 5 / 2, used = 3, dayKey = 0\<rparr>"
  by (simp add: registerPlatform_def incrementUsage_def resetIfNeeded_def getDayKey_def
      msPerDay_def Let_def quotaRun_def checkedIncrement_def checkQuota_def)

text \<open>
  C10: for a platform that was never registered, \<open>checkQuota\<close> and \<open>incrementUsage\<close>
  return normally and leave the registry as it is, and \<open>getStatus\<close> returns \<open>null\<close>.
\<close>

theorem unregistered_platform_ignored:
  "qs p = None \<Longrightarrow>
     checkQuota now p qs = (None, qs) \<and> incrementUsage now p qs = qs
     \<and> getStatus now p qs = (None, qs)"
  by (simp add: checkQuota_def incrementUsage_def getStatus_def)

theorem unregistered_platform_ignored_witness:
  "[''arxiv'' \<mapsto> \<lparr>limit = 3, used = 0, dayKey = 0\<rparr>] ''scopus'' = None
   \<and> checkQuota 0 ''scopus'' [''arxiv'' \<mapsto> \<lparr>limit = 3, used = 0, dayKey = 0\<rparr>]
       = (None, [''arxiv'' \<mapsto> \<lparr>limit = 3, used = 0, dayKey = 0\<rparr>])
   \<and> incrementUsage 0 ''scopus'' [''arxiv'' \<mapsto> \<lparr>limit = 3, used = 0, dayKey = 0\<rparr>]
       = [''arxiv'' \<mapsto> \<lparr>limit = 3, used = 0, dayKey = 0\<rparr>]
   \<and> getStatus 0 ''scopus'' [''arxiv'' \<mapsto> \<lparr>limit = 3, used = 0, dayKey = 0\<rparr>]
       = (None, [''arxiv'' \<mapsto> \<lparr>limit = 3, used = 0, dayKey = 0\<rparr>])"
proof -
  have h: "[''arxiv'' \<mapsto> \<lparr>limit = 3, used = 0, dayKey = 0\<rparr>] ''scopus'' = None" by simp
  from unregistered_platform_ignored
         [of "[''arxiv'' \<mapsto> \<lparr>limit = 3, used = 0, dayKey = 0\<rparr>]" "''scopus''" 0, OF h] h
  show ?thesis by blast
qed

section \<open>Properties of the ErrorHandler\<close>







subsection \<open>The delay before a retry\<close>








section \<open>Properties of the RequestCache\<close>

subsection \<open>generateKey: query normalisation\<close>

lemma toLowerChar_whitespace: "isWhiteSpace c \<Longrightarrow> toLowerChar c = c"
  by (auto simp add: isWhiteSpace_def toLowerChar_def Let_def)

lemma toLowerCase_whitespace: "\<forall>c \<in> set l. isWhiteSpace c \<Longrightarrow> toLowerCase l = l"
  by (induction l) (simp_all add: toLowerCase_def toLowerChar_whitespace)

lemma toLowerCase_append: "toLowerCase (xs @ ys) = toLowerCase xs @ toLowerCase ys"
  by (simp add: toLowerCase_def)

lemma trim_whitespace_left: "\<forall>c \<in> set l. isWhiteSpace c \<Longrightarrow> trim (l @ x) = trim x"
  by (simp add: trim_def dropWhile_append2)

lemma trim_whitespace_right:
  assumes "\<forall>c \<in> set r. isWhiteSpace c"
  shows "trim (x @ r) = trim x"
proof (cases "\<forall>c \<in> set x. isWhiteSpace c")
  case True
  with assms have d: "dropWhile isWhiteSpace (x @ r) = []" "dropWhile isWhiteSpace x = []"
    by (auto simp add: dropWhile_eq_Nil_conv)
  show ?thesis unfolding trim_def by (simp only: d)
next
  case False
  then obtain c where "c \<in> set x" "\<not> isWhiteSpace c" by blast
  then have "dropWhile isWhiteSpace (x @ r) = dropWhile isWhiteSpace x @ r"
    by (rule dropWhile_append1)
  moreover have "dropWhile isWhiteSpace (rev r @ rev (dropWhile isWhiteSpace x))
      = dropWhile isWhiteSpace (rev (dropWhile isWhiteSpace x))"
    using assms by (intro dropWhile_append2) simp
  ultimately show ?thesis by (simp add: trim_def)
qed

text \<open>
  C8: \<open>generateKey\<close> is a function of its arguments (the same inputs give the same
  key), and the key does not depend on the case of the query or on white space around
  it: \<open>generateKey(p, "Query", o)\<close> equals \<open>generateKey(p, " query ", o)\<close> for every
  platform and options, and in general a query may be wrapped in white space and
  replaced by any text with the same lower-case form.
\<close>

theorem generateKey_query_insensitive:
  "generateKey sha256hex p ''Query'' opts = generateKey sha256hex p '' query '' opts
   \<and> ((\<forall>c \<in> set l. isWhiteSpace c) \<and> (\<forall>c \<in> set r. isWhiteSpace c)
        \<and> toLowerCase q = toLowerCase q'
      \<longrightarrow> generateKey sha256hex p (l @ q @ r) opts = generateKey sha256hex p q' opts)"
proof (intro conjI impI)
  assume a: "(\<forall>c \<in> set l. isWhiteSpace c) \<and> (\<forall>c \<in> set r. isWhiteSpace c)
        \<and> toLowerCase q = toLowerCase q'"
  then have "trim (toLowerCase (l @ q @ r)) = trim (l @ (toLowerCase q' @ r))"
    by (simp add: toLowerCase_append toLowerCase_whitespace)
  also have "\<dots> = trim (toLowerCase q')"
    using a by (simp add: trim_whitespace_left trim_whitespace_right)
  finally show "generateKey sha256hex p (l @ q @ r) opts = generateKey sha256hex p q' opts"
    by (simp add: generateKey_def generateKey_data_def)
next
  have "trim (toLowerCase ''Query'') = trim (toLowerCase '' query '')"
    by code_simp
  then show "generateKey sha256hex p ''Query'' opts = generateKey sha256hex p '' query '' opts"
    by (simp add: generateKey_def generateKey_data_def)
qed

theorem generateKey_query_insensitive_witness:
  "generateKey (\<lambda>d. d) ''platform'' ''  Query  '' (Some []) =
     generateKey (\<lambda>d. d) ''platform'' ''query'' (Some [])
   \<and> generateKey (\<lambda>d. d) ''platform'' ''Query'' (Some []) =
     generateKey (\<lambda>d. d) ''platform'' '' query '' (Some [])"
proof -
  have ws: "\<forall>c \<in> set ''  ''. isWhiteSpace c" by (simp add: isWhiteSpace_def)
  have lc: "toLowerCase ''Query'' = toLowerCase ''query''"
    by code_simp
  from generateKey_query_insensitive
         [where l = "''  ''" and r = "''  ''" and q = "''Query''" and q' = "''query''"
            and sha256hex = "\<lambda>d. d" and p = "''platform''" and opts = "Some []"]
       ws lc
  show ?thesis by simp
qed

subsection \<open>generateKey: the options are hashed in their own field order\<close>

lemma hexDigit_code:
  "n < 16 \<Longrightarrow> (of_char (hexDigit n) :: nat) = (if n < 10 then 48 + n else 87 + n)"
  by (simp add: hexDigit_def)

lemma hexDigit_inj:
  assumes "a < 16" "b < 16" "hexDigit a = hexDigit b"
  shows "a = b"
proof -
  from assms(3) have "(of_char (hexDigit a) :: nat) = of_char (hexDigit b)" by simp
  with assms(1,2) show ?thesis by (simp add: hexDigit_code split: if_splits)
qed

lemma hexDigit_pair: 
  assumes "n < 32" "m < 32" "hexDigit (n div 16) = hexDigit (m div 16)"
    "hexDigit (n mod 16) = hexDigit (m mod 16)"
  shows "n = m"
proof -
  have "n div 16 = m div 16" using assms(1,2,3) by (intro hexDigit_inj) auto
  moreover have "n mod 16 = m mod 16" using assms(4) by (intro hexDigit_inj) auto
  ultimately show ?thesis by (metis div_mult_mod_eq)
qed

lemma escapeChar_head: "\<exists>x xs. escapeChar c = x # xs \<and> x \<noteq> CHR 0x22"
  by (auto simp add: escapeChar_def Let_def)

lemma escapeChar_prefix_code:
  assumes "escapeChar c @ X = escapeChar d @ Y"
  shows "c = d"
proof -
  have eq: "(of_char c :: nat) = of_char d"
    using assms hexDigit_pair [of "of_char c" "of_char d"]
    by (auto simp add: escapeChar_def Let_def simp del: of_char_eq_iff split: if_splits)
  then show ?thesis by simp
qed

lemma escape_prefix_free:
  "concat (map escapeChar a) @ CHR 0x22 # X = concat (map escapeChar b) @ CHR 0x22 # Y
   \<Longrightarrow> a = b"
proof (induction a arbitrary: b)
  case Nil
  show ?case
  proof (cases b)
    case Nil
    then show ?thesis by simp
  next
    case (Cons d ds)
    obtain x xs where "escapeChar d = x # xs" "x \<noteq> CHR 0x22"
      using escapeChar_head by blast
    with Nil.prems Cons show ?thesis by simp
  qed
next
  case (Cons c cs)
  show ?case
  proof (cases b)
    case Nil
    obtain x xs where "escapeChar c = x # xs" "x \<noteq> CHR 0x22"
      using escapeChar_head by blast
    with Cons.prems Nil show ?thesis by simp
  next
    case (Cons d ds)
    with Cons.prems
    have e: "escapeChar c @ (concat (map escapeChar cs) @ CHR 0x22 # X)
        = escapeChar d @ (concat (map escapeChar ds) @ CHR 0x22 # Y)"
      by simp
    then have cd: "c = d" by (rule escapeChar_prefix_code)
    with e have "concat (map escapeChar cs) @ CHR 0x22 # X
        = concat (map escapeChar ds) @ CHR 0x22 # Y"
      by simp
    then have "cs = ds" by (rule Cons.IH)
    with cd Cons show ?thesis by simp
  qed
qed

lemma quoteJSONString_prefix_free:
  "quoteJSONString a @ X = quoteJSONString b @ Y \<Longrightarrow> a = b"
  unfolding quoteJSONString_def by (rule escape_prefix_free [of a X b Y]) simp

lemma join_Cons: "join sep (x # xs) = x @ (if xs = [] then [] else sep @ join sep xs)"
  by (cases xs) simp_all

lemma stringifyMembers_Nil_iff: "stringifyMembers fs = [] \<longleftrightarrow> fs = []"
  by (cases fs) auto

lemma members_text_head:
  assumes "join '','' (stringifyMembers ((a, v) # fs1)) @ X
         = join '','' (stringifyMembers ((b, w) # fs2)) @ Y"
  shows "a = b"
proof -
  from assms have "quoteJSONString a @ ('':'' @ stringify v
        @ (if stringifyMembers fs1 = [] then [] else '','' @ join '','' (stringifyMembers fs1)) @ X)
      = quoteJSONString b @ ('':'' @ stringify w
        @ (if stringifyMembers fs2 = [] then [] else '','' @ join '','' (stringifyMembers fs2)) @ Y)"
    by (simp add: join_Cons)
  then show ?thesis by (rule quoteJSONString_prefix_free)
qed

lemma members_text_order:
  "distinct (map fst fs) \<Longrightarrow> distinct (map fst fs') \<Longrightarrow> set fs = set fs' \<Longrightarrow>
   join '','' (stringifyMembers fs) @ X = join '','' (stringifyMembers fs') @ Y \<Longrightarrow> fs = fs'"
proof (induction fs arbitrary: fs' X Y)
  case Nil
  then show ?case by simp
next
  case (Cons m fs1)
  obtain a v where m: "m = (a, v)" by (cases m)
  from Cons.prems(3) obtain n fs2 where fs': "fs' = n # fs2" by (cases fs') auto
  obtain b w where n: "n = (b, w)" by (cases n)
  from Cons.prems(4) have "join '','' (stringifyMembers ((a, v) # fs1)) @ X
         = join '','' (stringifyMembers ((b, w) # fs2)) @ Y"
    unfolding m fs' n .
  then have ab: "a = b" by (rule members_text_head)
  have a1: "a \<notin> fst ` set fs1" using Cons.prems(1) m by simp
  have a2: "a \<notin> fst ` set fs2" using Cons.prems(2) fs' n ab by simp
  have "(a, w) \<in> insert (a, v) (set fs1)" using Cons.prems(3) m fs' n ab by auto
  with a1 have vw: "v = w" by force
  have n1: "(a, v) \<notin> set fs1" using a1 by force
  have n2: "(a, v) \<notin> set fs2" using a2 by force
  have ins: "insert (a, v) (set fs1) = insert (a, v) (set fs2)"
    using Cons.prems(3) m fs' n ab vw by simp
  have "set fs1 = insert (a, v) (set fs1) - {(a, v)}" using n1 by simp
  also have "\<dots> = insert (a, v) (set fs2) - {(a, v)}" by (simp only: ins)
  also have "\<dots> = set fs2" using n2 by simp
  finally have sets: "set fs1 = set fs2" .
  have d1: "distinct (map fst fs1)" using Cons.prems(1) by simp
  have d2: "distinct (map fst fs2)" using Cons.prems(2) fs' by simp
  have "fs1 = fs2"
  proof (cases "fs1 = []")
    case True
    with sets show ?thesis by simp
  next
    case False
    with sets have ne: "fs2 \<noteq> []" by auto
    from Cons.prems(4) m fs' n ab vw False ne
    have "join '','' (stringifyMembers fs1) @ X = join '','' (stringifyMembers fs2) @ Y"
      by (simp add: join_Cons stringifyMembers_Nil_iff)
    with d1 d2 sets show ?thesis by (rule Cons.IH)
  qed
  with m fs' n ab vw show ?case by simp
qed

text \<open>
  C6, as the code has it: \<open>generateKey\<close> hashes \<open>JSON.stringify\<close> of the options as
  they are, without reordering their fields. Two option objects with the same fields
  and values give the same hashed text, and so the same key, if their fields are in the
  same order; if the order differs the hashed texts differ (the keys are then equal only
  if the digest collides).
\<close>

theorem generateKey_field_order_matters:
  "(distinct (map fst fs) \<and> distinct (map fst fs') \<and> set fs = set fs' \<longrightarrow>
      (generateKey_data p q (Some fs) = generateKey_data p q (Some fs') \<longleftrightarrow> fs = fs'))
   \<and> (generateKey_data p q opts = generateKey_data p q opts' \<longrightarrow>
      generateKey sha256hex p q opts = generateKey sha256hex p q opts')"
proof (intro conjI impI)
  assume a: "distinct (map fst fs) \<and> distinct (map fst fs') \<and> set fs = set fs'"
  show "generateKey_data p q (Some fs) = generateKey_data p q (Some fs') \<longleftrightarrow> fs = fs'"
  proof
    assume "generateKey_data p q (Some fs) = generateKey_data p q (Some fs')"
    then have "join '','' (stringifyMembers fs) @ ''}}''
        = join '','' (stringifyMembers fs') @ ''}}''"
      by (simp add: generateKey_data_def)
    with a show "fs = fs'" by (auto dest: members_text_order)
  next
    assume "fs = fs'"
    then show "generateKey_data p q (Some fs) = generateKey_data p q (Some fs')" by simp
  qed
next
  assume "generateKey_data p q opts = generateKey_data p q opts'"
  then show "generateKey sha256hex p q opts = generateKey sha256hex p q opts'"
    by (simp add: generateKey_def)
qed

theorem generateKey_field_order_matters_witness:
  "generateKey_data ''crossref'' ''deep learning''
       (Some [(''maxResults'', JNum 10), (''sortBy'', JStr ''date'')])
     \<noteq> generateKey_data ''crossref'' ''deep learning''
       (Some [(''sortBy'', JStr ''date''), (''maxResults'', JNum 10)])
   \<and> generateKey (\<lambda>d. d) ''crossref'' ''deep learning'' None
     = generateKey (\<lambda>d. d) ''crossref'' ''deep learning'' (Some [])"
proof -
  let ?fs = "[(''maxResults'', JNum 10), (''sortBy'', JStr ''date'')]"
  let ?fs' = "[(''sortBy'', JStr ''date''), (''maxResults'', JNum 10)]"
  have h: "distinct (map fst ?fs) \<and> distinct (map fst ?fs') \<and> set ?fs = set ?fs'"
    by auto
  have ne: "?fs \<noteq> ?fs'" by simp
  have same: "generateKey_data ''crossref'' ''deep learning'' None
      = generateKey_data ''crossref'' ''deep learning'' (Some [])"
    by (simp add: generateKey_data_def)
  from generateKey_field_order_matters
         [where fs = ?fs and fs' = ?fs' and p = "''crossref''" and q = "''deep learning''"
            and opts = None and opts' = "Some []" and sha256hex = "\<lambda>d. d"] h ne same
  show ?thesis by blast
qed

text \<open>
  C6 as stated fails: the options \<open>{a: 1, b: 2}\<close> and \<open>{b: 2, a: 1}\<close> hold the same
  fields and values, yet the texts handed to the digest differ, and so do the keys
  under a digest that tells the two texts apart.
\<close>

theorem generateKey_field_order_counterexample:
  "generateKey_data ''p'' ''q'' (Some [(''a'', JNum 1), (''b'', JNum 2)])
     \<noteq> generateKey_data ''p'' ''q'' (Some [(''b'', JNum 2), (''a'', JNum 1)])
   \<and> generateKey (\<lambda>d. d) ''p'' ''q'' (Some [(''a'', JNum 1), (''b'', JNum 2)])
     \<noteq> generateKey (\<lambda>d. d) ''p'' ''q'' (Some [(''b'', JNum 2), (''a'', JNum 1)])"
proof -
  have n1: "numberToString 1 = ''1''" by code_simp
  have n2: "numberToString 2 = ''2''" by code_simp
  have qa: "quoteJSONString ''a'' = [CHR 0x22, CHR ''a'', CHR 0x22]" by code_simp
  have qb: "quoteJSONString ''b'' = [CHR 0x22, CHR ''b'', CHR 0x22]" by code_simp
  show ?thesis
    by (simp add: generateKey_def generateKey_data_def n1 n2 qa qb)
qed

subsection \<open>The store: size bound, eviction order and expiry\<close>

lemma newRequestCache_max:
  "lru_max (cache (newRequestCache options)) =
     (case maxSize options of None \<Rightarrow> 100 | Some m \<Rightarrow> if m = 0 then 100 else m)"
  by (simp add: newRequestCache_def Let_def)




lemma lru_set_max: "lru_max (lru_set now k v c) = lru_max c"
  by (simp add: lru_set_def Let_def)












lemma cache_set_max: "lru_max (cache (cache_set now k v rc)) = lru_max (cache rc)"
  by (simp add: cache_set_def lru_set_max)









section \<open>Properties of the RateLimiter\<close>



















section \<open>Properties of the MirrorRegistry\<close>

lemma fastest_props:
  "fastest m xs \<in> set (m # xs)
   \<and> (\<forall>x \<in> set (m # xs). lastResponseTimeMs (fastest m xs) \<le> lastResponseTimeMs x)"
proof (induction xs arbitrary: m)
  case Nil
  show ?case by simp
next
  case (Cons x xs)
  let ?m' = "if lastResponseTimeMs x < lastResponseTimeMs m then x else m"
  from Cons.IH [of ?m']
  have mem: "fastest ?m' xs \<in> set (?m' # xs)"
    and least: "\<forall>y \<in> set (?m' # xs). lastResponseTimeMs (fastest ?m' xs) \<le> lastResponseTimeMs y"
    by blast+
  have a: "fastest m (x # xs) \<in> set (m # x # xs)" using mem by auto
  from least have l1: "lastResponseTimeMs (fastest ?m' xs) \<le> lastResponseTimeMs ?m'"
    and l2: "\<forall>y \<in> set xs. lastResponseTimeMs (fastest ?m' xs) \<le> lastResponseTimeMs y"
    by simp_all
  have "lastResponseTimeMs ?m' \<le> lastResponseTimeMs m"
    "lastResponseTimeMs ?m' \<le> lastResponseTimeMs x" by simp_all
  with l1 have "lastResponseTimeMs (fastest ?m' xs) \<le> lastResponseTimeMs m"
    "lastResponseTimeMs (fastest ?m' xs) \<le> lastResponseTimeMs x" by linarith+
  with l2 have b: "\<forall>y \<in> set (m # x # xs).
      lastResponseTimeMs (fastest m (x # xs)) \<le> lastResponseTimeMs y" by simp
  from a b show ?case by blast
qed

lemma selectBest_healthy:
  assumes "\<exists>m \<in> set ms. mirrorStatus m = Healthy"
  shows "\<exists>b. selectBest ms = Inr b \<and> b \<in> set ms \<and> mirrorStatus b = Healthy
    \<and> (\<forall>m \<in> set ms. mirrorStatus m = Healthy \<longrightarrow> lastResponseTimeMs b \<le> lastResponseTimeMs m)"
proof -
  from assms have "filter (\<lambda>m. mirrorStatus m = Healthy) ms \<noteq> []"
    by (simp add: filter_empty_conv)
  then obtain h hs where f: "filter (\<lambda>m. mirrorStatus m = Healthy) ms = h # hs"
    by (cases "filter (\<lambda>m. mirrorStatus m = Healthy) ms") auto
  then have sel: "selectBest ms = Inr (fastest h hs)" by (simp add: selectBest_def)
  from fastest_props [of h hs]
  have mem: "fastest h hs \<in> set (h # hs)"
    and least: "\<forall>x \<in> set (h # hs). lastResponseTimeMs (fastest h hs) \<le> lastResponseTimeMs x"
    by blast+
  have hset: "set (h # hs) = {m \<in> set ms. mirrorStatus m = Healthy}"
    unfolding f [symmetric] by auto
  from mem hset have "fastest h hs \<in> set ms" "mirrorStatus (fastest h hs) = Healthy" by auto
  moreover from least hset
  have "\<forall>m \<in> set ms. mirrorStatus m = Healthy
      \<longrightarrow> lastResponseTimeMs (fastest h hs) \<le> lastResponseTimeMs m" by auto
  ultimately show ?thesis using sel by blast
qed

lemma selectBest_unknown:
  assumes "\<forall>m \<in> set ms. mirrorStatus m \<noteq> Healthy" "\<exists>m \<in> set ms. mirrorStatus m = Unknown"
  shows "\<exists>u. selectBest ms = Inr u \<and> u \<in> set ms \<and> mirrorStatus u = Unknown"
proof -
  from assms(1) have none: "filter (\<lambda>m. mirrorStatus m = Healthy) ms = []"
    by (simp add: filter_empty_conv)
  from assms(2) have "filter (\<lambda>m. mirrorStatus m = Unknown) ms \<noteq> []"
    by (simp add: filter_empty_conv)
  then obtain u us where f: "filter (\<lambda>m. mirrorStatus m = Unknown) ms = u # us"
    by (cases "filter (\<lambda>m. mirrorStatus m = Unknown) ms") auto
  then have "u \<in> set (filter (\<lambda>m. mirrorStatus m = Unknown) ms)" by simp
  then have "u \<in> set ms" "mirrorStatus u = Unknown" by simp_all
  moreover have "selectBest ms = Inr u" using none f by (simp add: selectBest_def)
  ultimately show ?thesis by blast
qed

lemma selectBest_fails_iff:
  "selectBest ms = Inl NoMirrorAvailable \<longleftrightarrow> (\<forall>m \<in> set ms. mirrorStatus m = Unhealthy)"
proof
  assume fail: "selectBest ms = Inl NoMirrorAvailable"
  show "\<forall>m \<in> set ms. mirrorStatus m = Unhealthy"
  proof
    fix m assume m: "m \<in> set ms"
    show "mirrorStatus m = Unhealthy"
    proof (cases "mirrorStatus m")
      case Healthy
      with m have "\<exists>m \<in> set ms. mirrorStatus m = Healthy" by blast
      from selectBest_healthy [OF this] fail show ?thesis by auto
    next
      case Unknown
      show ?thesis
      proof (cases "\<exists>m \<in> set ms. mirrorStatus m = Healthy")
        case True
        from selectBest_healthy [OF this] fail show ?thesis by auto
      next
        case False
        then have "\<forall>m \<in> set ms. mirrorStatus m \<noteq> Healthy" by blast
        moreover from m Unknown have "\<exists>m \<in> set ms. mirrorStatus m = Unknown" by blast
        ultimately show ?thesis using selectBest_unknown [of ms] fail by auto
      qed
    next
      case Unhealthy
      then show ?thesis .
    qed
  qed
next
  assume all: "\<forall>m \<in> set ms. mirrorStatus m = Unhealthy"
  then have "filter (\<lambda>m. mirrorStatus m = Healthy) ms = []"
    "filter (\<lambda>m. mirrorStatus m = Unknown) ms = []"
    by (simp_all add: filter_empty_conv)
  then show "selectBest ms = Inl NoMirrorAvailable" by (simp add: selectBest_def)
qed

lemma reportFailure_funpow:
  "(reportFailure threshold u ^^ n) ms =
     map (\<lambda>m. if url m = u \<and> 0 < n
               then m\<lparr>consecutiveFailures := consecutiveFailures m + n,
                      mirrorStatus := (if consecutiveFailures m + n \<ge> threshold
                                       then Unhealthy else mirrorStatus m)\<rparr>
               else m) ms"
proof (induction n)
  case 0
  show ?case by (simp add: map_idI)
next
  case (Suc n)
  show ?case
    unfolding funpow.simps comp_def Suc.IH
    by (auto simp add: reportFailure_def Let_def)
qed

text \<open>
  C7: \<open>selectBest\<close> returns a Healthy mirror with the lowest \<open>lastResponseTimeMs\<close> if
  there is a Healthy one; otherwise it returns an Unknown mirror if there is one; it
  fails with \<open>NoMirrorAvailable\<close> if and only if every mirror is Unhealthy. With mirrors
  at 50 ms (Healthy), 10 ms (Healthy) and 9999 ms (Unhealthy) it returns the 10 ms
  mirror, and once \<open>reportFailure\<close> has brought the failures of the 10 ms mirror to the
  threshold it returns the 50 ms mirror.
\<close>

theorem selectBest_fastest_healthy:
  "((\<exists>m \<in> set ms. mirrorStatus m = Healthy) \<longrightarrow>
      (\<exists>b. selectBest ms = Inr b \<and> b \<in> set ms \<and> mirrorStatus b = Healthy
        \<and> (\<forall>m \<in> set ms. mirrorStatus m = Healthy
              \<longrightarrow> lastResponseTimeMs b \<le> lastResponseTimeMs m)))
   \<and> ((\<forall>m \<in> set ms. mirrorStatus m \<noteq> Healthy) \<and> (\<exists>m \<in> set ms. mirrorStatus m = Unknown) \<longrightarrow>
      (\<exists>u. selectBest ms = Inr u \<and> u \<in> set ms \<and> mirrorStatus u = Unknown))
   \<and> (selectBest ms = Inl NoMirrorAvailable \<longleftrightarrow> (\<forall>m \<in> set ms. mirrorStatus m = Unhealthy))
   \<and> (let slow = \<lparr>url = ua, mirrorStatus = Healthy, lastResponseTimeMs = 50,
                    lastCheckedAt = ta, consecutiveFailures = fa\<rparr>;
           fast = \<lparr>url = ub, mirrorStatus = Healthy, lastResponseTimeMs = 10,
                    lastCheckedAt = tb, consecutiveFailures = fb\<rparr>;
           dead = \<lparr>url = uc, mirrorStatus = Unhealthy, lastResponseTimeMs = 9999,
                    lastCheckedAt = tc, consecutiveFailures = fc\<rparr>
       in selectBest [slow, fast, dead] = Inr fast
          \<and> (ua \<noteq> ub \<and> 0 < n \<and> threshold \<le> fb + n \<longrightarrow>
               selectBest ((reportFailure threshold ub ^^ n) [slow, fast, dead]) = Inr slow))"
proof (intro conjI)
  show "(\<exists>m \<in> set ms. mirrorStatus m = Healthy) \<longrightarrow>
      (\<exists>b. selectBest ms = Inr b \<and> b \<in> set ms \<and> mirrorStatus b = Healthy
        \<and> (\<forall>m \<in> set ms. mirrorStatus m = Healthy
              \<longrightarrow> lastResponseTimeMs b \<le> lastResponseTimeMs m))"
    using selectBest_healthy [of ms] by blast
  show "(\<forall>m \<in> set ms. mirrorStatus m \<noteq> Healthy) \<and> (\<exists>m \<in> set ms. mirrorStatus m = Unknown) \<longrightarrow>
      (\<exists>u. selectBest ms = Inr u \<and> u \<in> set ms \<and> mirrorStatus u = Unknown)"
    using selectBest_unknown [of ms] by blast
  show "selectBest ms = Inl NoMirrorAvailable \<longleftrightarrow> (\<forall>m \<in> set ms. mirrorStatus m = Unhealthy)"
    by (rule selectBest_fails_iff)
  show "let slow = \<lparr>url = ua, mirrorStatus = Healthy, lastResponseTimeMs = 50,
                    lastCheckedAt = ta, consecutiveFailures = fa\<rparr>;
           fast = \<lparr>url = ub, mirrorStatus = Healthy, lastResponseTimeMs = 10,
                    lastCheckedAt = tb, consecutiveFailures = fb\<rparr>;
           dead = \<lparr>url = uc, mirrorStatus = Unhealthy, lastResponseTimeMs = 9999,
                    lastCheckedAt = tc, consecutiveFailures = fc\<rparr>
       in selectBest [slow, fast, dead] = Inr fast
          \<and> (ua \<noteq> ub \<and> 0 < n \<and> threshold \<le> fb + n \<longrightarrow>
               selectBest ((reportFailure threshold ub ^^ n) [slow, fast, dead]) = Inr slow)"
    by (simp add: Let_def selectBest_def reportFailure_funpow)
qed

theorem selectBest_fastest_healthy_witness:
  "selectBest
     [\<lparr>url = ''https://sci-hub.se'', mirrorStatus = Healthy, lastResponseTimeMs = 50,
       lastCheckedAt = 0, consecutiveFailures = 0\<rparr>,
      \<lparr>url = ''https://sci-hub.st'', mirrorStatus = Healthy, lastResponseTimeMs = 10,
       lastCheckedAt = 0, consecutiveFailures = 0\<rparr>,
      \<lparr>url = ''https://sci-hub.ru'', mirrorStatus = Unhealthy, lastResponseTimeMs = 9999,
       lastCheckedAt = 0, consecutiveFailures = 5\<rparr>]
   = Inr \<lparr>url = ''https://sci-hub.st'', mirrorStatus = Healthy, lastResponseTimeMs = 10,
          lastCheckedAt = 0, consecutiveFailures = 0\<rparr>
   \<and> selectBest ((reportFailure 3 ''https://sci-hub.st'' ^^ 3)
     [\<lparr>url = ''https://sci-hub.se'', mirrorStatus = Healthy, lastResponseTimeMs = 50,
       lastCheckedAt = 0, consecutiveFailures = 0\<rparr>,
      \<lparr>url = ''https://sci-hub.st'', mirrorStatus = Healthy, lastResponseTimeMs = 10,
       lastCheckedAt = 0, consecutiveFailures = 0\<rparr>,
      \<lparr>url = ''https://sci-hub.ru'', mirrorStatus = Unhealthy, lastResponseTimeMs = 9999,
       lastCheckedAt = 0, consecutiveFailures = 5\<rparr>])
   = Inr \<lparr>url = ''https://sci-hub.se'', mirrorStatus = Healthy, lastResponseTimeMs = 50,
          lastCheckedAt = 0, consecutiveFailures = 0\<rparr>
   \<and> selectBest
     [\<lparr>url = ''https://sci-hub.ru'', mirrorStatus = Unhealthy, lastResponseTimeMs = 9999,
       lastCheckedAt = 0, consecutiveFailures = 5\<rparr>]
   = Inl NoMirrorAvailable
   \<and> (\<exists>u. selectBest
          [\<lparr>url = ''https://sci-hub.ru'', mirrorStatus = Unhealthy, lastResponseTimeMs = 9999,
            lastCheckedAt = 0, consecutiveFailures = 5\<rparr>,
           \<lparr>url = ''https://sci-hub.wf'', mirrorStatus = Unknown, lastResponseTimeMs = 0,
            lastCheckedAt = 0, consecutiveFailures = 0\<rparr>] = Inr u
        \<and> mirrorStatus u = Unknown)
   \<and> (\<exists>b. selectBest
          [\<lparr>url = ''https://sci-hub.wf'', mirrorStatus = Unknown, lastResponseTimeMs = 0,
            lastCheckedAt = 0, consecutiveFailures = 0\<rparr>,
           \<lparr>url = ''https://sci-hub.se'', mirrorStatus = Healthy, lastResponseTimeMs = 50,
            lastCheckedAt = 0, consecutiveFailures = 0\<rparr>] = Inr b
        \<and> mirrorStatus b = Healthy)"
proof -
  let ?dead = "\<lparr>url = ''https://sci-hub.ru'', mirrorStatus = Unhealthy,
                 lastResponseTimeMs = 9999, lastCheckedAt = 0, consecutiveFailures = 5\<rparr>"
  let ?new = "\<lparr>url = ''https://sci-hub.wf'', mirrorStatus = Unknown,
                lastResponseTimeMs = 0, lastCheckedAt = 0, consecutiveFailures = 0\<rparr>"
  let ?slow = "\<lparr>url = ''https://sci-hub.se'', mirrorStatus = Healthy,
                 lastResponseTimeMs = 50, lastCheckedAt = 0, consecutiveFailures = 0\<rparr>"
  note inst = selectBest_fastest_healthy
      [where ms = "[?dead]" and ua = "''https://sci-hub.se''" and ub = "''https://sci-hub.st''"
         and uc = "''https://sci-hub.ru''" and ta = 0 and tb = 0 and tc = 0 and fa = 0 and fb = 0
         and fc = 5 and n = 3 and threshold = 3]
  have h: "''https://sci-hub.se'' \<noteq> ''https://sci-hub.st'' \<and> (0::nat) < 3 \<and> (3::nat) \<le> 0 + 3"
    by simp
  have all: "\<forall>m \<in> set [?dead]. mirrorStatus m = Unhealthy" by simp
  from inst [THEN conjunct2, THEN conjunct2, THEN conjunct1] all
  have three: "selectBest [?dead] = Inl NoMirrorAvailable" by blast
  have unk: "(\<forall>m \<in> set [?dead, ?new]. mirrorStatus m \<noteq> Healthy)
      \<and> (\<exists>m \<in> set [?dead, ?new]. mirrorStatus m = Unknown)" by simp
  from selectBest_fastest_healthy [where ms = "[?dead, ?new]", THEN conjunct2, THEN conjunct1,
      THEN mp, OF unk]
  have four: "\<exists>u. selectBest [?dead, ?new] = Inr u \<and> mirrorStatus u = Unknown" by blast
  have hl: "\<exists>m \<in> set [?new, ?slow]. mirrorStatus m = Healthy" by simp
  from selectBest_fastest_healthy [where ms = "[?new, ?slow]", THEN conjunct1, THEN mp, OF hl]
  have five: "\<exists>b. selectBest [?new, ?slow] = Inr b \<and> mirrorStatus b = Healthy" by blast
  from inst [THEN conjunct2, THEN conjunct2, THEN conjunct2] h
  have scen: "selectBest [?slow,
        \<lparr>url = ''https://sci-hub.st'', mirrorStatus = Healthy, lastResponseTimeMs = 10,
         lastCheckedAt = 0, consecutiveFailures = 0\<rparr>, ?dead]
      = Inr \<lparr>url = ''https://sci-hub.st'', mirrorStatus = Healthy, lastResponseTimeMs = 10,
             lastCheckedAt = 0, consecutiveFailures = 0\<rparr>
    \<and> selectBest ((reportFailure 3 ''https://sci-hub.st'' ^^ 3) [?slow,
        \<lparr>url = ''https://sci-hub.st'', mirrorStatus = Healthy, lastResponseTimeMs = 10,
         lastCheckedAt = 0, consecutiveFailures = 0\<rparr>, ?dead]) = Inr ?slow"
    by (simp add: Let_def)
  from scen three four five show ?thesis by blast
qed

end
